theory Spec2Isabelle
  imports Complex_Main
begin

section \<open>Values shared by the two modules\<close>

text \<open>
  Python floats are idealised as real numbers: rounding is not modelled. The one place
  where the program leaves the reals is a division by zero, which numpy answers with
  \<open>nan\<close> or an infinity (and a warning) instead of raising; \<open>np_float\<close> keeps
  those results apart from the finite ones.
\<close>

datatype py_error = ValueError | KeyError | IndexError | SystemExit int

datatype np_float = Fin real | NaN | PosInf | NegInf

definition np_true_divide :: "real \<Rightarrow> real \<Rightarrow> np_float" where
  "np_true_divide a b =
     (if b \<noteq> 0 then Fin (a / b)
      else if a = 0 then NaN
      else if 0 < a then PosInf else NegInf)"

text \<open>Each \<open>print\<close> of the program is one constructor, carrying the values it formats.\<close>

datatype printed =
    UnitsFallback string
  | InfeasibleOrUnbounded
  | OptimalObjective real
  | StatusInvestigate int
  | Separator
  | SelectedPlants "string list"
  | WeightedAverageDistance np_float
  | TotalDemand real
  | PctWithin400 np_float
  | PctWithin800 np_float
  | PctWithin1200 np_float

text \<open>A computation that may raise; \<open>map_result\<close> stops at the first error.\<close>

fun map_result :: "('a \<Rightarrow> py_error + 'b) \<Rightarrow> 'a list \<Rightarrow> py_error + 'b list" where
  "map_result f [] = Inr []"
| "map_result f (x # xs) =
     (case f x of
        Inl e \<Rightarrow> Inl e
      | Inr y \<Rightarrow> (case map_result f xs of Inl e \<Rightarrow> Inl e | Inr ys \<Rightarrow> Inr (y # ys)))"

section \<open>utils.py: the great-circle distance\<close>

definition lower_char :: "char \<Rightarrow> char" where
  "lower_char c =
     (case map_of (zip ''ABCDEFGHIJKLMNOPQRSTUVWXYZ'' ''abcdefghijklmnopqrstuvwxyz'') c of
        Some d \<Rightarrow> d
      | None \<Rightarrow> c)"

text \<open>\<open>str.lower\<close> on ASCII text.\<close>

definition lower :: "string \<Rightarrow> string" where
  "lower s = map lower_char s"

definition radians :: "real \<Rightarrow> real" where
  "radians x = x * pi / 180"

text \<open>\<open>math.sqrt\<close> raises \<open>ValueError\<close> on a negative argument.\<close>

definition py_sqrt :: "real \<Rightarrow> py_error + real" where
  "py_sqrt x = (if x < 0 then Inl ValueError else Inr (sqrt x))"

text \<open>\<open>math.atan2 y x\<close>: the angle of the point \<open>(x, y)\<close>, in \<open>(-pi, pi]\<close>.\<close>

definition atan2 :: "real \<Rightarrow> real \<Rightarrow> real" where
  "atan2 y x =
     (if 0 < x then arctan (y / x)
      else if x < 0 then (if 0 \<le> y then arctan (y / x) + pi else arctan (y / x) - pi)
      else if 0 < y then pi / 2
      else if y < 0 then - (pi / 2)
      else 0)"

text \<open>
  The result is the pair of what the call prints and what it returns (or raises).
\<close>

definition calculate_distance_haversine ::
  "real \<Rightarrow> real \<Rightarrow> real \<Rightarrow> real \<Rightarrow> real \<Rightarrow> string \<Rightarrow> printed list \<times> (py_error + real)" where
  "calculate_distance_haversine lat1 lon1 lat2 lon2 road_factor units =
     (let u = lower units;
          (r, out) =
            (if u \<in> {''miles'', ''mile'', ''m''} then (3958.756, [])
             else if u \<in> {''kilometers'', ''kilometer'', ''km''} then (6371.00, [])
             else (3958.756, [UnitsFallback units]));
          rlat1 = radians lat1; rlon1 = radians lon1;
          rlat2 = radians lat2; rlon2 = radians lon2;
          dlon = rlon2 - rlon1;
          dlat = rlat2 - rlat1;
          a = (sin (dlat / 2))\<^sup>2 + cos rlat1 * cos rlat2 * (sin (dlon / 2))\<^sup>2
      in (out,
          case py_sqrt a of
            Inl e \<Rightarrow> Inl e
          | Inr s1 \<Rightarrow>
              (case py_sqrt (1 - a) of
                 Inl e \<Rightarrow> Inl e
               | Inr s2 \<Rightarrow> Inr (r * (2 * atan2 s1 s2) * road_factor))))"

section \<open>execute.py: the tables\<close>

text \<open>
  A data frame is the list of its rows, in order; what pandas does with a frame without
  rows is not modelled. Identifiers are integers. The theorems about the report assume
  that the identifiers of a table are distinct, as the sheets promise: on a non-unique
  index \<open>.loc\<close> yields a frame instead of a scalar, and the model then reads the first
  row of that index.
\<close>

record plant =
  Plant_ID :: int
  Plant_Name :: string
  City :: string
  p_Latitude :: real
  p_Longitude :: real
  Must_Use :: bool
  Can_Use :: bool

record customer =
  Customer_ID :: int
  Customer_Name :: string
  c_Latitude :: real
  c_Longitude :: real
  Demand :: real

text \<open>The module-level parameters that \<open>run_network_optimization\<close> reads.\<close>

record params =
  max_plants :: int
  cost_per_mile :: real
  min_cost :: real

definition main_params :: params where
  "main_params = \<lparr>max_plants = 3, cost_per_mile = 2, min_cost = 450\<rparr>"

text \<open>
  A row of the cross merge, indexed by \<open>(Plant ID, Customer ID)\<close>: the columns of the
  plant (\<open>_x\<close>), those of the customer (\<open>_y\<close>) and the distance; \<open>dist_entry\<close>
  has the \<open>Cost\<close> column as well.
\<close>

record dist_row =
  row_plant :: plant
  row_customer :: customer
  Distance :: real

record dist_entry = dist_row +
  Cost :: real

text \<open>\<open>Series.unique\<close> and \<open>drop_duplicates\<close> keep the first occurrence.\<close>

fun drop_duplicates :: "'a list \<Rightarrow> 'a list" where
  "drop_duplicates [] = []"
| "drop_duplicates (x # xs) = x # drop_duplicates (filter (\<lambda>y. y \<noteq> x) xs)"

definition get_distance :: "plant list \<Rightarrow> customer list \<Rightarrow> py_error + dist_row list" where
  "get_distance orig_df dest_df =
     map_result
       (\<lambda>(p, c).
          case snd (calculate_distance_haversine
                      (p_Latitude p) (p_Longitude p) (c_Latitude c) (c_Longitude c) 1 ''miles'') of
            Inl e \<Rightarrow> Inl e
          | Inr d \<Rightarrow> Inr \<lparr>row_plant = p, row_customer = c, Distance = d\<rparr>)
       (List.product orig_df dest_df)"

section \<open>The solver's interface\<close>

text \<open>
  The integer program as \<open>gurobipy\<close> receives it: binary variables \<open>x[i]\<close> and
  \<open>y[i, j]\<close>, linear expressions, named constraints and an objective to minimise.
  The solver itself is a parameter of the run; \<open>feasible\<close> and \<open>optimal\<close> state what
  its answer means, with exact values: the tolerances of the solver are not modelled.
  The status codes are those of Gurobi.
\<close>

datatype var = X int | Y int int

datatype lin_expr = LinExpr "(real \<times> var) list" real

datatype sense = LESS_EQUAL | EQUAL

record constr =
  constr_name :: string
  lhs :: lin_expr
  constr_sense :: sense
  rhs :: lin_expr

record grb_model =
  m_vars :: "var list"
  m_constrs :: "constr list"
  m_objective :: lin_expr

record grb_result =
  status :: int
  solution :: "var \<Rightarrow> real"

definition GRB_OPTIMAL :: int where "GRB_OPTIMAL = 2"
definition GRB_INFEASIBLE :: int where "GRB_INFEASIBLE = 3"
definition GRB_INF_OR_UNBD :: int where "GRB_INF_OR_UNBD = 4"
definition GRB_UNBOUNDED :: int where "GRB_UNBOUNDED = 5"

fun getValue :: "lin_expr \<Rightarrow> (var \<Rightarrow> real) \<Rightarrow> real" where
  "getValue (LinExpr ts k) v = (\<Sum>(a, x) \<leftarrow> ts. a * v x) + k"

definition satisfies :: "(var \<Rightarrow> real) \<Rightarrow> constr \<Rightarrow> bool" where
  "satisfies v c =
     (case constr_sense c of
        LESS_EQUAL \<Rightarrow> getValue (lhs c) v \<le> getValue (rhs c) v
      | EQUAL \<Rightarrow> getValue (lhs c) v = getValue (rhs c) v)"

definition feasible :: "grb_model \<Rightarrow> (var \<Rightarrow> real) \<Rightarrow> bool" where
  "feasible m v =
     (list_all (\<lambda>x. v x = 0 \<or> v x = 1) (m_vars m) \<and> list_all (satisfies v) (m_constrs m))"

definition optimal :: "grb_model \<Rightarrow> (var \<Rightarrow> real) \<Rightarrow> bool" where
  "optimal m v =
     (feasible m v \<and>
      (\<forall>w. feasible m w \<longrightarrow> getValue (m_objective m) v \<le> getValue (m_objective m) w))"

section \<open>execute.py: the optimization model\<close>

definition plnt :: "plant list \<Rightarrow> int list" where
  "plnt plant_df = drop_duplicates (map Plant_ID plant_df)"

definition cust :: "customer list \<Rightarrow> int list" where
  "cust cust_df = drop_duplicates (map Customer_ID cust_df)"

text \<open>A Python set; the list fixes one order of iteration, which no theorem relies on.\<close>

definition ij_set :: "plant list \<Rightarrow> customer list \<Rightarrow> (int \<times> int) list" where
  "ij_set plant_df cust_df = List.product (plnt plant_df) (cust cust_df)"

definition must_use_plants :: "plant list \<Rightarrow> int list" where
  "must_use_plants plant_df = map Plant_ID (filter Must_Use plant_df)"

definition unavailable_plants :: "plant list \<Rightarrow> int list" where
  "unavailable_plants plant_df = map Plant_ID (filter (\<lambda>p. \<not> Can_Use p) plant_df)"

text \<open>\<open>dist.loc[i, j]\<close> and \<open>dmd.loc[j]\<close>: the row of that index, \<open>KeyError\<close> without one.\<close>

definition dist_loc :: "dist_entry list \<Rightarrow> int \<Rightarrow> int \<Rightarrow> py_error + dist_entry" where
  "dist_loc dist_df i j =
     (case find (\<lambda>r. Plant_ID (row_plant r) = i \<and> Customer_ID (row_customer r) = j) dist_df of
        None \<Rightarrow> Inl KeyError
      | Some r \<Rightarrow> Inr r)"

definition dmd_loc :: "customer list \<Rightarrow> int \<Rightarrow> py_error + customer" where
  "dmd_loc dmd j =
     (case find (\<lambda>c. Customer_ID c = j) dmd of
        None \<Rightarrow> Inl KeyError
      | Some c \<Rightarrow> Inr c)"

definition total_weighted_dist ::
  "dist_entry list \<Rightarrow> customer list \<Rightarrow> (int \<times> int) list \<Rightarrow> py_error + lin_expr" where
  "total_weighted_dist dist_df dmd ij =
     (case map_result
             (\<lambda>(i, j).
                case dist_loc dist_df i j of
                  Inl e \<Rightarrow> Inl e
                | Inr r \<Rightarrow>
                    (case dmd_loc dmd j of
                       Inl e \<Rightarrow> Inl e
                     | Inr c \<Rightarrow> Inr (Distance r * Demand c, Y i j)))
             ij of
        Inl e \<Rightarrow> Inl e
      | Inr ts \<Rightarrow> Inr (LinExpr ts 0))"


text \<open>The five families of constraints, in the order the source adds them.\<close>

definition cust_coverage :: "int list \<Rightarrow> int \<Rightarrow> constr" where
  "cust_coverage ps j =
     \<lparr>constr_name = ''cust_coverage'', lhs = LinExpr (map (\<lambda>i. (1, Y i j)) ps) 0,
      constr_sense = EQUAL, rhs = LinExpr [] 1\<rparr>"

definition max_num_plants :: "int list \<Rightarrow> int \<Rightarrow> constr" where
  "max_num_plants ps P =
     \<lparr>constr_name = ''max_num_plants'', lhs = LinExpr (map (\<lambda>i. (1, X i)) ps) 0,
      constr_sense = LESS_EQUAL, rhs = LinExpr [] (of_int P)\<rparr>"

definition rel_x_y :: "int \<times> int \<Rightarrow> constr" where
  "rel_x_y ij =
     (case ij of (i, j) \<Rightarrow>
        \<lparr>constr_name = ''rel_x_y'', lhs = LinExpr [(1, Y i j)] 0,
         constr_sense = LESS_EQUAL, rhs = LinExpr [(1, X i)] 0\<rparr>)"

definition must_use :: "int \<Rightarrow> constr" where
  "must_use i =
     \<lparr>constr_name = ''must_use'', lhs = LinExpr [(1, X i)] 0,
      constr_sense = EQUAL, rhs = LinExpr [] 1\<rparr>"

definition cant_use :: "int \<Rightarrow> constr" where
  "cant_use i =
     \<lparr>constr_name = ''cant_use'', lhs = LinExpr [(1, X i)] 0,
      constr_sense = EQUAL, rhs = LinExpr [] 0\<rparr>"

definition optimization_model ::
  "params \<Rightarrow> plant list \<Rightarrow> customer list \<Rightarrow> lin_expr \<Rightarrow> grb_model" where
  "optimization_model prm plant_df cust_df objective =
     \<lparr>m_vars = map X (plnt plant_df) @ map (\<lambda>(i, j). Y i j) (List.product (plnt plant_df) (cust cust_df)),
      m_constrs =
        map (cust_coverage (plnt plant_df)) (cust cust_df)
        @ [max_num_plants (plnt plant_df) (max_plants prm)]
        @ map rel_x_y (ij_set plant_df cust_df)
        @ map must_use (must_use_plants plant_df)
        @ map cant_use (unavailable_plants plant_df),
      m_objective = objective\<rparr>"

section \<open>execute.py: the outputs and the run\<close>

record adf_row =
  adf_Plant_ID :: int
  adf_Customer_ID :: int
  adf_Demand :: real
  adf_Distance :: real
  Within400 :: bool
  Within800 :: bool
  Within1200 :: bool

record lane =
  Lane :: string
  Origin :: string
  Destination :: string
  lane_Demand :: real
  lane_Plant_ID :: int
  Origin_Lat :: real
  Origin_Lon :: real
  lane_Customer_ID :: int
  Dest_Lat :: real
  Dest_Lon :: real

text \<open>\<open>str\<close> of an integer identifier, for the lane label.\<close>

fun str_nat :: "nat \<Rightarrow> string" where
  "str_nat n =
     (if n < 10 then [''0123456789'' ! n]
      else str_nat (n div 10) @ [''0123456789'' ! (n mod 10)])"

declare str_nat.simps [simp del]

definition str_int :: "int \<Rightarrow> string" where
  "str_int i = (if i < 0 then CHR ''-'' # str_nat (nat (- i)) else str_nat (nat i))"

text \<open>The keys of \<open>y\<close> whose variable has a value above one half.\<close>

definition assigned_list :: "(int \<times> int) list \<Rightarrow> (var \<Rightarrow> real) \<Rightarrow> (int \<times> int) list" where
  "assigned_list y sol = filter (\<lambda>(i, j). 0.5 < sol (Y i j)) y"

text \<open>The city of every selected plant; \<open>.iloc[0]\<close> raises on an empty selection.\<close>

definition opt_plants :: "plant list \<Rightarrow> int list \<Rightarrow> (var \<Rightarrow> real) \<Rightarrow> py_error + string list" where
  "opt_plants plant_df x sol =
     map_result
       (\<lambda>k. case filter (\<lambda>p. Plant_ID p = k) plant_df of
               [] \<Rightarrow> Inl IndexError
             | p # _ \<Rightarrow> Inr (City p))
       (filter (\<lambda>k. 0.5 < sol (X k)) x)"

text \<open>The two inner merges that give every assigned pair its demand and its distance.\<close>

definition adf :: "(int \<times> int) list \<Rightarrow> customer list \<Rightarrow> dist_entry list \<Rightarrow> adf_row list" where
  "adf assigned dmd dist_df =
     [\<lparr>adf_Plant_ID = i, adf_Customer_ID = j, adf_Demand = Demand c, adf_Distance = Distance r,
       Within400 = (Distance r \<le> 400), Within800 = (Distance r \<le> 800),
       Within1200 = (Distance r \<le> 1200)\<rparr>.
        (i, j) \<leftarrow> assigned,
        c \<leftarrow> dmd, Customer_ID c = j,
        r \<leftarrow> dist_df, Plant_ID (row_plant r) = i \<and> Customer_ID (row_customer r) = j]"

definition total_dmd :: "adf_row list \<Rightarrow> real" where
  "total_dmd a = sum_list (map adf_Demand a)"

definition pct_dmd_within :: "(adf_row \<Rightarrow> bool) \<Rightarrow> adf_row list \<Rightarrow> np_float" where
  "pct_dmd_within flag a =
     np_true_divide (sum_list (map adf_Demand (filter flag a))) (total_dmd a)"

text \<open>The three merges of the lane table, the choice of columns and \<open>drop_duplicates\<close>.\<close>

definition lanes_table ::
  "(int \<times> int) list \<Rightarrow> customer list \<Rightarrow> customer list \<Rightarrow> plant list \<Rightarrow> lane list" where
  "lanes_table assigned dmd cust_df plant_df =
     drop_duplicates
       [\<lparr>Lane = str_int i @ ''-'' @ str_int j, Origin = Plant_Name p,
         Destination = Customer_Name c, lane_Demand = Demand d, lane_Plant_ID = i,
         Origin_Lat = p_Latitude p, Origin_Lon = p_Longitude p, lane_Customer_ID = j,
         Dest_Lat = c_Latitude c, Dest_Lon = c_Longitude c\<rparr>.
          (i, j) \<leftarrow> assigned,
          d \<leftarrow> dmd, Customer_ID d = j,
          c \<leftarrow> cust_df, Customer_ID c = j,
          p \<leftarrow> plant_df, Plant_ID p = i]"

text \<open>
  \<open>x\<close> and \<open>y\<close> are the keys of the two families of variables and \<open>sol\<close> the value
  (\<open>.x\<close>) of each variable. The percentages are printed multiplied by 100.
\<close>

definition generate_outputs ::
  "plant list \<Rightarrow> customer list \<Rightarrow> dist_entry list \<Rightarrow> customer list \<Rightarrow> lin_expr \<Rightarrow>
   int list \<Rightarrow> (int \<times> int) list \<Rightarrow> (var \<Rightarrow> real) \<Rightarrow> printed list \<times> (py_error + lane list)" where
  "generate_outputs plant_df cust_df dist_df dmd twd x y sol =
     (let assigned = assigned_list y sol in
      case opt_plants plant_df x sol of
        Inl e \<Rightarrow> ([Separator], Inl e)
      | Inr cities \<Rightarrow>
          (let a = adf assigned dmd dist_df;
               weighted_avg_dist = np_true_divide (getValue twd sol) (total_dmd a)
           in ([Separator, SelectedPlants cities, WeightedAverageDistance weighted_avg_dist,
                TotalDemand (total_dmd a), PctWithin400 (pct_dmd_within Within400 a),
                PctWithin800 (pct_dmd_within Within800 a),
                PctWithin1200 (pct_dmd_within Within1200 a), Separator],
               Inr (lanes_table assigned dmd cust_df plant_df))))"

definition with_cost :: "params \<Rightarrow> dist_row \<Rightarrow> dist_entry" where
  "with_cost prm r =
     \<lparr>row_plant = row_plant r, row_customer = row_customer r, Distance = Distance r,
      Cost = max (cost_per_mile prm * Distance r) (min_cost prm)\<rparr>"

text \<open>
  The regions \<open>Set Up Data\<close> and \<open>Optimization Model\<close> up to \<open>setObjective\<close>:
  the distance table with its costs, the expression \<open>total_weighted_dist\<close> and the model
  that is handed to the solver. The objective is case 1, the total weighted distance.
\<close>

definition set_up_model ::
  "params \<Rightarrow> plant list \<Rightarrow> customer list \<Rightarrow> py_error + dist_entry list \<times> lin_expr \<times> grb_model" where
  "set_up_model prm plant_df cust_df =
     (case get_distance plant_df cust_df of
        Inl e \<Rightarrow> Inl e
      | Inr d \<Rightarrow>
          (let dist_df = map (with_cost prm) d;
               dmd = cust_df
           in case total_weighted_dist dist_df dmd (ij_set plant_df cust_df) of
                Inl e \<Rightarrow> Inl e
              | Inr twd \<Rightarrow>
                  (let objective = twd
                   in Inr (dist_df, twd, optimization_model prm plant_df cust_df objective))))"

text \<open>
  The run, with the solver as the parameter \<open>optimize\<close>. It returns what it prints and
  either the error that ends it or the lane table it hands to the plot.
\<close>

definition run_network_optimization ::
  "params \<Rightarrow> (grb_model \<Rightarrow> grb_result) \<Rightarrow> plant list \<Rightarrow> customer list \<Rightarrow>
   printed list \<times> (py_error + lane list)" where
  "run_network_optimization prm optimize plant_df cust_df =
     (case set_up_model prm plant_df cust_df of
        Inl e \<Rightarrow> ([], Inl e)
      | Inr (dist_df, twd, mdl) \<Rightarrow>
          (let res = optimize mdl
           in if status res \<in> {GRB_INF_OR_UNBD, GRB_INFEASIBLE, GRB_UNBOUNDED}
              then ([InfeasibleOrUnbounded], Inl (SystemExit 1))
              else if status res = GRB_OPTIMAL
              then (case generate_outputs plant_df cust_df dist_df cust_df twd
                           (plnt plant_df)
                           (List.product (plnt plant_df) (cust cust_df))
                           (solution res) of
                      (out, r) \<Rightarrow>
                        (OptimalObjective (getValue (m_objective mdl) (solution res)) # out, r))
              else ([StatusInvestigate (status res)], Inl (SystemExit 1))))"

section \<open>Notions used in the statements\<close>

text \<open>
  The row that \<open>get_distance\<close> computes for a plant and a customer. The call of
  \<open>calculate_distance_haversine\<close> returns a distance for all arguments (lemma
  \<open>haversine_returns\<close> below), which \<open>projr\<close> reads.
\<close>

definition cross_row :: "plant \<Rightarrow> customer \<Rightarrow> dist_row" where
  "cross_row p c =
     \<lparr>row_plant = p, row_customer = c,
      Distance = projr (snd (calculate_distance_haversine
                   (p_Latitude p) (p_Longitude p) (c_Latitude c) (c_Longitude c) 1 ''miles''))\<rparr>"

text \<open>
  The pairs of a plant row and a customer row whose variable \<open>y\<close> has a value above
  one half.
\<close>

definition served_pairs ::
  "(var \<Rightarrow> real) \<Rightarrow> plant list \<Rightarrow> customer list \<Rightarrow> (plant \<times> customer) list" where
  "served_pairs sol plant_df cust_df =
     filter (\<lambda>(p, c). 0.5 < sol (Y (Plant_ID p) (Customer_ID c))) (List.product plant_df cust_df)"

text \<open>The row of the lane table and the row of \<open>adf\<close> for a plant and a customer.\<close>

definition lane_row :: "plant \<Rightarrow> customer \<Rightarrow> lane" where
  "lane_row p c =
     \<lparr>Lane = str_int (Plant_ID p) @ ''-'' @ str_int (Customer_ID c), Origin = Plant_Name p,
      Destination = Customer_Name c, lane_Demand = Demand c, lane_Plant_ID = Plant_ID p,
      Origin_Lat = p_Latitude p, Origin_Lon = p_Longitude p, lane_Customer_ID = Customer_ID c,
      Dest_Lat = c_Latitude c, Dest_Lon = c_Longitude c\<rparr>"

definition adf_entry :: "plant \<Rightarrow> customer \<Rightarrow> adf_row" where
  "adf_entry p c =
     \<lparr>adf_Plant_ID = Plant_ID p, adf_Customer_ID = Customer_ID c, adf_Demand = Demand c,
      adf_Distance = Distance (cross_row p c),
      Within400 = (Distance (cross_row p c) \<le> 400),
      Within800 = (Distance (cross_row p c) \<le> 800),
      Within1200 = (Distance (cross_row p c) \<le> 1200)\<rparr>"



text \<open>
  Solvers for the examples: one that reports a given status without a solution, and one
  that answers \<open>OPTIMAL\<close> with a given assignment.
\<close>

definition reporting :: "int \<Rightarrow> grb_model \<Rightarrow> grb_result" where
  "reporting s m = \<lparr>status = s, solution = (\<lambda>_. 0)\<rparr>"

definition answering :: "(var \<Rightarrow> real) \<Rightarrow> grb_model \<Rightarrow> grb_result" where
  "answering v m = \<lparr>status = GRB_OPTIMAL, solution = v\<rparr>"

text \<open>Plants and customers for the examples, on the equator at longitudes 0 and 180.\<close>

definition plant_A :: plant where
  "plant_A = \<lparr>Plant_ID = 1, Plant_Name = ''Plant A'', City = ''Quito'', p_Latitude = 0,
     p_Longitude = 0, Must_Use = False, Can_Use = True\<rparr>"

definition plant_B :: plant where
  "plant_B = \<lparr>Plant_ID = 2, Plant_Name = ''Plant B'', City = ''Baker'', p_Latitude = 0,
     p_Longitude = 180, Must_Use = True, Can_Use = True\<rparr>"


definition customer_C :: customer where
  "customer_C = \<lparr>Customer_ID = 10, Customer_Name = ''Customer C'', c_Latitude = 0,
     c_Longitude = 0, Demand = 10\<rparr>"



text \<open>Both plants open, customers 10, 20 and 30 served from plant 1.\<close>

definition serve_from_A :: "var \<Rightarrow> real" where
  "serve_from_A v =
     (case v of
        X i \<Rightarrow> (if i = 1 \<or> i = 2 then 1 else 0)
      | Y i j \<Rightarrow> (if i = 1 \<and> (j = 10 \<or> j = 20 \<or> j = 30) then 1 else 0))"

section \<open>Theorems\<close>

subsection \<open>The haversine distance\<close>

text \<open>The haversine term \<open>a\<close> lies in \<open>[0, 1]\<close>, so neither square root raises.\<close>

lemma haversine_a_eq:
  fixes p q l :: real
  shows "(sin ((q - p) / 2))\<^sup>2 + cos p * cos q * (sin (l / 2))\<^sup>2
         = (1 - (sin p * sin q + cos p * cos q * cos l)) / 2"
proof -
  have half: "(sin (t / 2))\<^sup>2 = (1 - cos t) / 2" for t :: real
  proof -
    have "cos t = cos (2 * (t / 2))" by simp
    also have "\<dots> = 1 - 2 * (sin (t / 2))\<^sup>2" by (rule cos_double_sin)
    finally show ?thesis by simp
  qed
  have h1: "(sin ((q - p) / 2))\<^sup>2 = (1 - cos (q - p)) / 2" by (rule half)
  have h2: "(sin (l / 2))\<^sup>2 = (1 - cos l) / 2" by (rule half)
  show ?thesis
    unfolding h1 h2 by (simp add: cos_diff field_simps)
qed

lemma unit_dot_bound:
  fixes p q l :: real
  shows "\<bar>sin p * sin q + cos p * cos q * cos l\<bar> \<le> 1"
proof -
  have c: "\<bar>cos l\<bar> \<le> 1" by (rule abs_cos_le_one)
  have "\<bar>cos p * cos q * cos l\<bar> = \<bar>cos p * cos q\<bar> * \<bar>cos l\<bar>"
    by (simp add: abs_mult)
  also have "\<dots> \<le> \<bar>cos p * cos q\<bar> * 1"
    by (rule mult_left_mono [OF c]) simp
  finally have t: "\<bar>cos p * cos q * cos l\<bar> \<le> \<bar>cos p\<bar> * \<bar>cos q\<bar>"
    by (simp add: abs_mult)
  have s: "\<bar>sin p * sin q\<bar> = \<bar>sin p\<bar> * \<bar>sin q\<bar>"
    by (simp add: abs_mult)
  have am1: "2 * (\<bar>sin p\<bar> * \<bar>sin q\<bar>) \<le> (sin p)\<^sup>2 + (sin q)\<^sup>2"
    using sum_squares_bound [of "\<bar>sin p\<bar>" "\<bar>sin q\<bar>"] by (simp add: mult.assoc)
  have am2: "2 * (\<bar>cos p\<bar> * \<bar>cos q\<bar>) \<le> (cos p)\<^sup>2 + (cos q)\<^sup>2"
    using sum_squares_bound [of "\<bar>cos p\<bar>" "\<bar>cos q\<bar>"] by (simp add: mult.assoc)
  have one: "(sin p)\<^sup>2 + (cos p)\<^sup>2 = 1" "(sin q)\<^sup>2 + (cos q)\<^sup>2 = 1"
    by simp_all
  have "\<bar>sin p\<bar> * \<bar>sin q\<bar> + \<bar>cos p\<bar> * \<bar>cos q\<bar> \<le> 1"
    using am1 am2 one by linarith
  then show ?thesis
    using t s by linarith
qed

lemma haversine_a_range:
  fixes p q l :: real
  shows "0 \<le> (sin ((q - p) / 2))\<^sup>2 + cos p * cos q * (sin (l / 2))\<^sup>2
         \<and> (sin ((q - p) / 2))\<^sup>2 + cos p * cos q * (sin (l / 2))\<^sup>2 \<le> 1"
  using unit_dot_bound [of p q l] unfolding haversine_a_eq by (simp add: abs_le_iff)

lemma haversine_returns:
  "snd (calculate_distance_haversine lat1 lon1 lat2 lon2 rf units) =
     Inr ((if lower units \<in> {''kilometers'', ''kilometer'', ''km''} then 6371 else 3958.756)
          * (2 * atan2
               (sqrt ((sin ((radians lat2 - radians lat1) / 2))\<^sup>2
                      + cos (radians lat1) * cos (radians lat2)
                        * (sin ((radians lon2 - radians lon1) / 2))\<^sup>2))
               (sqrt (1 - ((sin ((radians lat2 - radians lat1) / 2))\<^sup>2
                      + cos (radians lat1) * cos (radians lat2)
                        * (sin ((radians lon2 - radians lon1) / 2))\<^sup>2))))
          * rf)"
proof -
  have r: "0 \<le> (sin ((radians lat2 - radians lat1) / 2))\<^sup>2
                      + cos (radians lat1) * cos (radians lat2)
                        * (sin ((radians lon2 - radians lon1) / 2))\<^sup>2
       \<and> (sin ((radians lat2 - radians lat1) / 2))\<^sup>2
                      + cos (radians lat1) * cos (radians lat2)
                        * (sin ((radians lon2 - radians lon1) / 2))\<^sup>2 \<le> 1"
    by (rule haversine_a_range)
  show ?thesis
    using r by (simp add: calculate_distance_haversine_def Let_def py_sqrt_def not_less)
qed




subsection \<open>Lists, sums and computations that may raise\<close>

lemma map_result_Inr:
  "(\<And>x. x \<in> set xs \<Longrightarrow> f x = Inr (g x)) \<Longrightarrow> map_result f xs = Inr (map g xs)"
  by (induction xs) simp_all

lemma set_drop_duplicates: "set (drop_duplicates xs) = set xs"
  by (induction xs rule: drop_duplicates.induct) auto

lemma drop_duplicates_distinct: "distinct xs \<Longrightarrow> drop_duplicates xs = xs"
proof (induction xs)
  case Nil
  then show ?case by simp
next
  case (Cons x xs)
  then have "filter (\<lambda>y. y \<noteq> x) xs = xs"
    by (auto intro: filter_True)
  with Cons show ?case by simp
qed

lemma filter_unique:
  "distinct (map f xs) \<Longrightarrow> x \<in> set xs \<Longrightarrow> filter (\<lambda>y. f y = f x) xs = [x]"
proof (induction xs)
  case Nil
  then show ?case by simp
next
  case (Cons a xs)
  show ?case
  proof (cases "a = x")
    case True
    have "f x \<notin> f ` set xs"
      using Cons.prems(1) True by simp
    then have "filter (\<lambda>y. f y = f x) xs = []"
      unfolding filter_empty_conv by (metis imageI)
    then show ?thesis using True by simp
  next
    case False
    then have "x \<in> set xs" using Cons.prems(2) by simp
    moreover have "f a \<noteq> f x" using Cons.prems(1) \<open>x \<in> set xs\<close> by auto
    ultimately show ?thesis using Cons by simp
  qed
qed

lemma concat_map_if:
  "concat (map (\<lambda>x. if P x then g x else []) xs) = concat (map g (filter P xs))"
  by (induction xs) simp_all

lemma filter_product:
  "filter (\<lambda>(a, b). P a \<and> Q b) (List.product xs ys) = List.product (filter P xs) (filter Q ys)"
proof (induction xs)
  case Nil
  then show ?case by simp
next
  case (Cons x xs)
  have "filter (\<lambda>(a, b). P a \<and> Q b) (map (Pair x) ys)
          = (if P x then map (Pair x) (filter Q ys) else [])"
    by (induction ys) simp_all
  with Cons show ?case by simp
qed

lemma binary_count:
  fixes f :: "'a \<Rightarrow> real"
  shows "(\<And>x. x \<in> set xs \<Longrightarrow> f x = 0 \<or> f x = 1) \<Longrightarrow>
     sum_list (map f xs) = real (length (filter (\<lambda>x. 0.5 < f x) xs))"
proof (induction xs)
  case Nil
  then show ?case by simp
next
  case (Cons a xs)
  have "f a = 0 \<or> f a = 1" using Cons.prems by simp
  moreover have "sum_list (map f xs) = real (length (filter (\<lambda>x. 0.5 < f x) xs))"
    using Cons by simp
  ultimately show ?case by auto
qed


lemma sum_list_product:
  fixes f :: "'a \<times> 'b \<Rightarrow> real"
  shows "sum_list (map f (List.product xs ys)) = (\<Sum>x\<leftarrow>xs. \<Sum>y\<leftarrow>ys. f (x, y))"
  by (induction xs) (simp_all add: comp_def)

lemma sum_list_swap:
  fixes g :: "'a \<Rightarrow> 'b \<Rightarrow> real"
  shows "(\<Sum>x\<leftarrow>xs. \<Sum>y\<leftarrow>ys. g x y) = (\<Sum>y\<leftarrow>ys. \<Sum>x\<leftarrow>xs. g x y)"
  by (induction xs) (simp_all add: sum_list_addf)

subsection \<open>The set-up always returns a model\<close>

lemma get_distance_returns:
  "get_distance ps cs = Inr (map (\<lambda>(p, c). cross_row p c) (List.product ps cs))"
  unfolding get_distance_def
  by (rule map_result_Inr) (auto simp: cross_row_def haversine_returns)

lemma map_result_succeeds:
  "(\<And>x. x \<in> set xs \<Longrightarrow> \<exists>y. f x = Inr y) \<Longrightarrow> \<exists>ys. map_result f xs = Inr ys"
proof (induction xs)
  case Nil
  then show ?case by simp
next
  case (Cons a xs)
  obtain y where "f a = Inr y" using Cons.prems by auto
  moreover obtain ys where "map_result f xs = Inr ys" using Cons by auto
  ultimately show ?case by simp
qed

lemma find_succeeds: "x \<in> set xs \<Longrightarrow> P x \<Longrightarrow> \<exists>y. find P xs = Some y"
  by (cases "find P xs") (auto simp: find_None_iff)

lemma plnt_set: "set (plnt ps) = Plant_ID ` set ps"
  by (simp add: plnt_def set_drop_duplicates)

lemma cust_set: "set (cust cs) = Customer_ID ` set cs"
  by (simp add: cust_def set_drop_duplicates)

lemma ij_set_set: "set (ij_set ps cs) = (Plant_ID ` set ps) \<times> (Customer_ID ` set cs)"
  by (simp add: ij_set_def plnt_set cust_set)

lemma total_weighted_dist_succeeds:
  "\<exists>twd. total_weighted_dist (map (with_cost prm) (map (\<lambda>(p, c). cross_row p c) (List.product ps cs)))
            cs (ij_set ps cs) = Inr twd"
proof -
  let ?d = "map (with_cost prm) (map (\<lambda>(p, c). cross_row p c) (List.product ps cs))"
  have "\<exists>ts. map_result
             (\<lambda>(i, j).
                case dist_loc ?d i j of
                  Inl e \<Rightarrow> Inl e
                | Inr r \<Rightarrow>
                    (case dmd_loc cs j of
                       Inl e \<Rightarrow> Inl e
                     | Inr c \<Rightarrow> Inr (Distance r * Demand c, Y i j)))
             (ij_set ps cs) = Inr ts"
  proof (rule map_result_succeeds)
    fix x assume "x \<in> set (ij_set ps cs)"
    then obtain p c where pc: "p \<in> set ps" "c \<in> set cs" "x = (Plant_ID p, Customer_ID c)"
      by (auto simp: ij_set_set)
    have mem: "with_cost prm (cross_row p c) \<in> set ?d"
      using pc by force
    have key: "Plant_ID (row_plant (with_cost prm (cross_row p c))) = Plant_ID p
        \<and> Customer_ID (row_customer (with_cost prm (cross_row p c))) = Customer_ID c"
      by (simp add: with_cost_def cross_row_def)
    obtain r where
      "find (\<lambda>r. Plant_ID (row_plant r) = Plant_ID p \<and> Customer_ID (row_customer r) = Customer_ID c) ?d
         = Some r"
      using find_succeeds [of "with_cost prm (cross_row p c)" ?d
          "\<lambda>r. Plant_ID (row_plant r) = Plant_ID p \<and> Customer_ID (row_customer r) = Customer_ID c",
          OF mem key]
      by auto
    then have d: "dist_loc ?d (Plant_ID p) (Customer_ID c) = Inr r"
      by (simp add: dist_loc_def)
    obtain c' where "find (\<lambda>c'. Customer_ID c' = Customer_ID c) cs = Some c'"
      using find_succeeds [of c cs "\<lambda>c'. Customer_ID c' = Customer_ID c"] pc by auto
    then have "dmd_loc cs (Customer_ID c) = Inr c'"
      by (simp add: dmd_loc_def)
    with d show "\<exists>y. (case x of (i, j) \<Rightarrow>
                case dist_loc ?d i j of
                  Inl e \<Rightarrow> Inl e
                | Inr r \<Rightarrow>
                    (case dmd_loc cs j of
                       Inl e \<Rightarrow> Inl e
                     | Inr c \<Rightarrow> Inr (Distance r * Demand c, Y i j))) = Inr y"
      using pc by simp
  qed
  then show ?thesis
    by (auto simp: total_weighted_dist_def)
qed

lemma set_up_model_returns:
  "\<exists>twd. set_up_model prm ps cs =
     Inr (map (with_cost prm) (map (\<lambda>(p, c). cross_row p c) (List.product ps cs)), twd,
          optimization_model prm ps cs twd)"
  using total_weighted_dist_succeeds [of prm ps cs]
  by (auto simp: set_up_model_def get_distance_returns)

subsection \<open>What a feasible assignment satisfies\<close>

lemma feasible_binary:
  assumes "feasible (optimization_model prm ps cs obj) v"
  shows "i \<in> set (plnt ps) \<Longrightarrow> v (X i) = 0 \<or> v (X i) = 1"
    and "i \<in> set (plnt ps) \<Longrightarrow> j \<in> set (cust cs) \<Longrightarrow> v (Y i j) = 0 \<or> v (Y i j) = 1"
  using assms by (auto simp: feasible_def optimization_model_def list_all_iff)

lemma feasible_coverage:
  assumes "feasible (optimization_model prm ps cs obj) v" and "j \<in> set (cust cs)"
  shows "(\<Sum>i\<leftarrow>plnt ps. v (Y i j)) = 1"
proof -
  have "satisfies v (cust_coverage (plnt ps) j)"
    using assms by (auto simp: feasible_def optimization_model_def list_all_iff)
  then show ?thesis
    by (simp add: satisfies_def cust_coverage_def comp_def)
qed

lemma feasible_cap:
  assumes "feasible (optimization_model prm ps cs obj) v"
  shows "(\<Sum>i\<leftarrow>plnt ps. v (X i)) \<le> of_int (max_plants prm)"
proof -
  have "satisfies v (max_num_plants (plnt ps) (max_plants prm))"
    using assms by (auto simp: feasible_def optimization_model_def list_all_iff)
  then show ?thesis
    by (simp add: satisfies_def max_num_plants_def comp_def)
qed

lemma feasible_linking:
  assumes "feasible (optimization_model prm ps cs obj) v"
    and "i \<in> set (plnt ps)" and "j \<in> set (cust cs)"
  shows "v (Y i j) \<le> v (X i)"
proof -
  have "(i, j) \<in> set (ij_set ps cs)"
    using assms by (simp add: ij_set_def)
  then have "satisfies v (rel_x_y (i, j))"
    using assms(1) by (auto simp: feasible_def optimization_model_def list_all_iff)
  then show ?thesis
    by (simp add: satisfies_def rel_x_y_def)
qed

lemma feasible_must_use:
  assumes "feasible (optimization_model prm ps cs obj) v" and "p \<in> set ps" and "Must_Use p"
  shows "v (X (Plant_ID p)) = 1"
proof -
  have "Plant_ID p \<in> set (must_use_plants ps)"
    using assms by (simp add: must_use_plants_def)
  then have "satisfies v (must_use (Plant_ID p))"
    using assms(1) by (auto simp: feasible_def optimization_model_def list_all_iff)
  then show ?thesis
    by (simp add: satisfies_def must_use_def)
qed

lemma feasible_cant_use:
  assumes "feasible (optimization_model prm ps cs obj) v" and "p \<in> set ps" and "\<not> Can_Use p"
  shows "v (X (Plant_ID p)) = 0"
proof -
  have "Plant_ID p \<in> set (unavailable_plants ps)"
    using assms by (simp add: unavailable_plants_def)
  then have "satisfies v (cant_use (Plant_ID p))"
    using assms(1) by (auto simp: feasible_def optimization_model_def list_all_iff)
  then show ?thesis
    by (simp add: satisfies_def cant_use_def)
qed

subsection \<open>The distance table\<close>

lemma with_cost_monotone:
  assumes "0 \<le> cost_per_mile prm" and "Distance r \<le> Distance s"
  shows "Cost (with_cost prm r) \<le> Cost (with_cost prm s)"
proof -
  have "cost_per_mile prm * Distance r \<le> cost_per_mile prm * Distance s"
    by (rule mult_left_mono [OF assms(2) assms(1)])
  then show ?thesis
    by (auto simp: with_cost_def)
qed

text \<open>
  Claim C3. The set-up always returns, and its distance table has one row for every pair
  of a plant row and a customer row, in the order of the cross product: no pair is
  skipped. Each row holds the haversine distance in miles of its two places and the cost
  \<open>max (distance * cost_per_mile) min_cost\<close>. For a rate that is not negative (the
  program sets 2) the cost does not decrease when the distance grows.
\<close>

theorem distance_matrix_total_and_cost:
  assumes "0 \<le> cost_per_mile prm"
  shows "\<exists>dist_df twd mdl. set_up_model prm plant_df cust_df = Inr (dist_df, twd, mdl)
     \<and> map (\<lambda>r. (row_plant r, row_customer r)) dist_df = List.product plant_df cust_df
     \<and> (\<forall>r\<in>set dist_df.
           snd (calculate_distance_haversine (p_Latitude (row_plant r)) (p_Longitude (row_plant r))
                  (c_Latitude (row_customer r)) (c_Longitude (row_customer r)) 1 ''miles'')
             = Inr (Distance r)
           \<and> Cost r = max (Distance r * cost_per_mile prm) (min_cost prm))
     \<and> (\<forall>r s. Distance r \<le> Distance s \<longrightarrow> Cost (with_cost prm r) \<le> Cost (with_cost prm s))"
proof -
  let ?d = "map (with_cost prm) (map (\<lambda>(p, c). cross_row p c) (List.product plant_df cust_df))"
  obtain twd where s: "set_up_model prm plant_df cust_df
      = Inr (?d, twd, optimization_model prm plant_df cust_df twd)"
    using set_up_model_returns by blast
  have keys: "map (\<lambda>r. (row_plant r, row_customer r)) ?d = List.product plant_df cust_df"
    by (simp add: comp_def with_cost_def cross_row_def case_prod_unfold)
  have rows: "\<forall>r\<in>set ?d.
           snd (calculate_distance_haversine (p_Latitude (row_plant r)) (p_Longitude (row_plant r))
                  (c_Latitude (row_customer r)) (c_Longitude (row_customer r)) 1 ''miles'')
             = Inr (Distance r)
           \<and> Cost r = max (Distance r * cost_per_mile prm) (min_cost prm)"
    by (auto simp: with_cost_def cross_row_def haversine_returns mult.commute)
  have mono: "\<forall>r s. Distance r \<le> Distance s \<longrightarrow> Cost (with_cost prm r) \<le> Cost (with_cost prm s)"
    using with_cost_monotone [OF assms] by blast
  show ?thesis
    using s keys rows mono by blast
qed

lemma set_up_model_parts:
  assumes "set_up_model prm ps cs = Inr (d, twd, mdl)"
  shows "d = map (with_cost prm) (map (\<lambda>(p, c). cross_row p c) (List.product ps cs))"
    and "total_weighted_dist d cs (ij_set ps cs) = Inr twd"
    and "mdl = optimization_model prm ps cs twd"
    and "m_objective mdl = twd"
  using assms
  by (auto simp: set_up_model_def get_distance_returns optimization_model_def Let_def
      split: sum.splits)

lemma lower_miles: "lower ''miles'' = ''miles''"
  by (simp add: lower_def lower_char_def)

lemma distance_same_place:
  "p_Latitude p = 0 \<Longrightarrow> p_Longitude p = 0 \<Longrightarrow> c_Latitude c = 0 \<Longrightarrow> c_Longitude c = 0 \<Longrightarrow>
   Distance (cross_row p c) = 0"
  by (simp add: cross_row_def haversine_returns lower_miles radians_def atan2_def)

lemma distance_antipodes:
  "p_Latitude p = 0 \<Longrightarrow> p_Longitude p = 180 \<Longrightarrow> c_Latitude c = 0 \<Longrightarrow> c_Longitude c = 0 \<Longrightarrow>
   Distance (cross_row p c) = 3958.756 * pi"
  by (simp add: cross_row_def haversine_returns lower_miles radians_def atan2_def)

text \<open>
  Claim C3 with the parameters of the program, two plants and one customer: the rows are
  those of the two pairs, with distances \<open>0\<close> and \<open>3958.756 * pi\<close> and costs
  \<open>450\<close> (the floor) and \<open>7917.512 * pi\<close>.
\<close>

theorem distance_matrix_total_and_cost_witness:
  "0 \<le> cost_per_mile main_params
   \<and> (\<exists>dist_df twd mdl.
         set_up_model main_params [plant_A, plant_B] [customer_C] = Inr (dist_df, twd, mdl)
         \<and> map (\<lambda>r. (row_plant r, row_customer r)) dist_df
             = [(plant_A, customer_C), (plant_B, customer_C)]
         \<and> map Distance dist_df = [0, 3958.756 * pi]
         \<and> map Cost dist_df = [450, 7917.512 * pi])"
proof -
  have h: "0 \<le> cost_per_mile main_params"
    by (simp add: main_params_def)
  obtain dist_df twd mdl where
    s: "set_up_model main_params [plant_A, plant_B] [customer_C] = Inr (dist_df, twd, mdl)"
    and k: "map (\<lambda>r. (row_plant r, row_customer r)) dist_df
             = List.product [plant_A, plant_B] [customer_C]"
    and c: "\<forall>r\<in>set dist_df.
           snd (calculate_distance_haversine (p_Latitude (row_plant r)) (p_Longitude (row_plant r))
                  (c_Latitude (row_customer r)) (c_Longitude (row_customer r)) 1 ''miles'')
             = Inr (Distance r)
           \<and> Cost r = max (Distance r * cost_per_mile main_params) (min_cost main_params)"
    using distance_matrix_total_and_cost [OF h, of "[plant_A, plant_B]" "[customer_C]"] by blast
  have d: "dist_df = [with_cost main_params (cross_row plant_A customer_C),
                        with_cost main_params (cross_row plant_B customer_C)]"
    using set_up_model_parts(1) [OF s] by simp
  have dA: "Distance (cross_row plant_A customer_C) = 0"
    by (rule distance_same_place) (simp_all add: plant_A_def customer_C_def)
  have dB: "Distance (cross_row plant_B customer_C) = 3958.756 * pi"
    by (rule distance_antipodes) (simp_all add: plant_B_def customer_C_def)
  have big: "(450::real) \<le> 7917.512 * pi"
    using pi_ge_two by simp
  have "map Distance dist_df = [0, 3958.756 * pi]"
    using d dA dB by (simp add: with_cost_def)
  moreover have "map Cost dist_df = [450, 7917.512 * pi]"
    using d dA dB big by (simp add: with_cost_def main_params_def max_def)
  ultimately show ?thesis
    using h s k by auto
qed

subsection \<open>The linking constraints\<close>

text \<open>
  Claim C4. The model that is built holds the constraint \<open>y[i, j] \<le> x[i]\<close> for every
  plant and every customer, so in every feasible assignment the value of \<open>y[i, j]\<close> is
  at most that of \<open>x[i]\<close>: a customer served by a plant (value above one half) is
  served by an open plant.
\<close>

theorem linking_constraints:
  "\<exists>dist_df twd mdl. set_up_model prm plant_df cust_df = Inr (dist_df, twd, mdl)
     \<and> (\<forall>p\<in>set plant_df. \<forall>c\<in>set cust_df.
           rel_x_y (Plant_ID p, Customer_ID c) \<in> set (m_constrs mdl))
     \<and> (\<forall>v. feasible mdl v \<longrightarrow>
           (\<forall>p\<in>set plant_df. \<forall>c\<in>set cust_df.
              v (Y (Plant_ID p) (Customer_ID c)) \<le> v (X (Plant_ID p))
              \<and> (0.5 < v (Y (Plant_ID p) (Customer_ID c)) \<longrightarrow> 0.5 < v (X (Plant_ID p)))))"
proof -
  obtain twd where s: "set_up_model prm plant_df cust_df
      = Inr (map (with_cost prm) (map (\<lambda>(p, c). cross_row p c) (List.product plant_df cust_df)),
             twd, optimization_model prm plant_df cust_df twd)"
    using set_up_model_returns by blast
  let ?m = "optimization_model prm plant_df cust_df twd"
  have a: "\<forall>p\<in>set plant_df. \<forall>c\<in>set cust_df.
           rel_x_y (Plant_ID p, Customer_ID c) \<in> set (m_constrs ?m)"
    by (simp add: optimization_model_def ij_set_set)
  have b: "\<forall>v. feasible ?m v \<longrightarrow>
           (\<forall>p\<in>set plant_df. \<forall>c\<in>set cust_df.
              v (Y (Plant_ID p) (Customer_ID c)) \<le> v (X (Plant_ID p))
              \<and> (0.5 < v (Y (Plant_ID p) (Customer_ID c)) \<longrightarrow> 0.5 < v (X (Plant_ID p))))"
  proof (intro allI impI ballI)
    fix v p c
    assume f: "feasible ?m v" and p: "p \<in> set plant_df" and c: "c \<in> set cust_df"
    have "v (Y (Plant_ID p) (Customer_ID c)) \<le> v (X (Plant_ID p))"
      using feasible_linking [OF f] p c by (simp add: plnt_set cust_set)
    then show "v (Y (Plant_ID p) (Customer_ID c)) \<le> v (X (Plant_ID p))
              \<and> (0.5 < v (Y (Plant_ID p) (Customer_ID c)) \<longrightarrow> 0.5 < v (X (Plant_ID p)))"
      by simp
  qed
  show ?thesis
    using s a b by blast
qed

lemma sample_feasible:
  "feasible (optimization_model main_params [plant_A, plant_B] [customer_C] obj) serve_from_A"
  by (simp add: feasible_def optimization_model_def plnt_def cust_def ij_set_def
      must_use_plants_def unavailable_plants_def satisfies_def cust_coverage_def
      max_num_plants_def rel_x_y_def must_use_def cant_use_def main_params_def
      plant_A_def plant_B_def customer_C_def serve_from_A_def)

text \<open>
  Claim C4 on two plants and one customer, with a feasible assignment that serves the
  customer from plant 1.
\<close>

theorem linking_constraints_witness:
  "\<exists>dist_df twd mdl.
     set_up_model main_params [plant_A, plant_B] [customer_C] = Inr (dist_df, twd, mdl)
     \<and> rel_x_y (1, 10) \<in> set (m_constrs mdl)
     \<and> feasible mdl serve_from_A
     \<and> serve_from_A (Y 1 10) \<le> serve_from_A (X 1)
     \<and> 0.5 < serve_from_A (Y 1 10) \<and> 0.5 < serve_from_A (X 1)"
proof -
  obtain dist_df twd mdl where
    s: "set_up_model main_params [plant_A, plant_B] [customer_C] = Inr (dist_df, twd, mdl)"
    and a: "\<forall>p\<in>set [plant_A, plant_B]. \<forall>c\<in>set [customer_C].
           rel_x_y (Plant_ID p, Customer_ID c) \<in> set (m_constrs mdl)"
    and b: "\<forall>v. feasible mdl v \<longrightarrow>
           (\<forall>p\<in>set [plant_A, plant_B]. \<forall>c\<in>set [customer_C].
              v (Y (Plant_ID p) (Customer_ID c)) \<le> v (X (Plant_ID p))
              \<and> (0.5 < v (Y (Plant_ID p) (Customer_ID c)) \<longrightarrow> 0.5 < v (X (Plant_ID p))))"
    using linking_constraints [of main_params "[plant_A, plant_B]" "[customer_C]"] by blast
  have m: "mdl = optimization_model main_params [plant_A, plant_B] [customer_C] twd"
    by (rule set_up_model_parts(3) [OF s])
  have f: "feasible mdl serve_from_A"
    unfolding m by (rule sample_feasible)
  have r: "rel_x_y (1, 10) \<in> set (m_constrs mdl)"
    using a by (simp add: plant_A_def customer_C_def)
  have l: "serve_from_A (Y 1 10) \<le> serve_from_A (X 1)
     \<and> (0.5 < serve_from_A (Y 1 10) \<longrightarrow> 0.5 < serve_from_A (X 1))"
    using b f by (simp add: plant_A_def customer_C_def)
  have y: "0.5 < serve_from_A (Y 1 10)"
    by (simp add: serve_from_A_def)
  show ?thesis
    using s r f l y by blast
qed

subsection \<open>A status other than optimal\<close>

lemma run_not_optimal:
  assumes "set_up_model prm ps cs = Inr (d, twd, mdl)" and "status (optimize mdl) \<noteq> GRB_OPTIMAL"
  shows "run_network_optimization prm optimize ps cs =
           (if status (optimize mdl) \<in> {GRB_INF_OR_UNBD, GRB_INFEASIBLE, GRB_UNBOUNDED}
            then [InfeasibleOrUnbounded] else [StatusInvestigate (status (optimize mdl))],
            Inl (SystemExit 1))"
  using assms by (simp add: run_network_optimization_def Let_def)

text \<open>
  Claim C7, as amended. Whatever the input, the model is set up and given to the solver;
  when the status it reports is not \<open>OPTIMAL\<close>, the run prints one line and ends with
  \<open>SystemExit(1)\<close>, with no table of lanes and no KPI line. For \<open>INF_OR_UNBD\<close>,
  \<open>INFEASIBLE\<close> and \<open>UNBOUNDED\<close> the line is the same and holds no status; for every
  other status the line holds that status.
\<close>

theorem non_optimal_status_exits:
  "\<exists>dist_df twd mdl. set_up_model prm plant_df cust_df = Inr (dist_df, twd, mdl)
     \<and> (status (optimize mdl) \<noteq> GRB_OPTIMAL \<longrightarrow>
          run_network_optimization prm optimize plant_df cust_df =
            (if status (optimize mdl) \<in> {GRB_INF_OR_UNBD, GRB_INFEASIBLE, GRB_UNBOUNDED}
             then [InfeasibleOrUnbounded] else [StatusInvestigate (status (optimize mdl))],
             Inl (SystemExit 1)))"
proof -
  obtain d twd mdl where s: "set_up_model prm plant_df cust_df = Inr (d, twd, mdl)"
    using set_up_model_returns by blast
  show ?thesis
    using s run_not_optimal [OF s] by blast
qed

text \<open>
  The amended claim C7 for a solver that reports status 9 (the time limit).
\<close>

theorem non_optimal_status_exits_witness:
  "\<exists>dist_df twd mdl.
     set_up_model main_params [plant_A, plant_B] [customer_C] = Inr (dist_df, twd, mdl)
     \<and> status (reporting 9 mdl) \<noteq> GRB_OPTIMAL
     \<and> run_network_optimization main_params (reporting 9) [plant_A, plant_B] [customer_C]
         = ([StatusInvestigate 9], Inl (SystemExit 1))"
  using non_optimal_status_exits [of main_params "[plant_A, plant_B]" "[customer_C]" "reporting 9"]
  by (auto simp: reporting_def GRB_OPTIMAL_def GRB_INF_OR_UNBD_def GRB_INFEASIBLE_def
      GRB_UNBOUNDED_def)

text \<open>
  Claim C7 as it is written fails: an infeasible and an unbounded model end the run with
  the same line and the same exit, so the failure is neither distinct per outcome nor does
  it carry the status.
\<close>

theorem infeasible_unbounded_same_failure_counterexample:
  "GRB_INFEASIBLE \<noteq> GRB_UNBOUNDED
   \<and> run_network_optimization main_params (reporting GRB_INFEASIBLE) [plant_A, plant_B] [customer_C]
       = ([InfeasibleOrUnbounded], Inl (SystemExit 1))
   \<and> run_network_optimization main_params (reporting GRB_UNBOUNDED) [plant_A, plant_B] [customer_C]
       = ([InfeasibleOrUnbounded], Inl (SystemExit 1))"
proof -
  obtain d twd mdl where
    s: "set_up_model main_params [plant_A, plant_B] [customer_C] = Inr (d, twd, mdl)"
    using set_up_model_returns by blast
  show ?thesis
    using run_not_optimal [OF s, of "reporting GRB_INFEASIBLE"]
      run_not_optimal [OF s, of "reporting GRB_UNBOUNDED"]
    by (simp add: reporting_def GRB_OPTIMAL_def GRB_INF_OR_UNBD_def GRB_INFEASIBLE_def
        GRB_UNBOUNDED_def)
qed

subsection \<open>The objective\<close>






subsection \<open>A plant that must and cannot be used\<close>




subsection \<open>The tables of the report for distinct identifiers\<close>

lemma plnt_distinct: "distinct (map Plant_ID ps) \<Longrightarrow> plnt ps = map Plant_ID ps"
  by (simp add: plnt_def drop_duplicates_distinct)

lemma cust_distinct: "distinct (map Customer_ID cs) \<Longrightarrow> cust cs = map Customer_ID cs"
  by (simp add: cust_def drop_duplicates_distinct)

lemma product_map:
  "List.product (map f xs) (map g ys) = map (\<lambda>(x, y). (f x, g y)) (List.product xs ys)"
  by (induction xs) (simp_all add: comp_def)

lemma assigned_served:
  assumes "distinct (map Plant_ID ps)" and "distinct (map Customer_ID cs)"
  shows "assigned_list (List.product (plnt ps) (cust cs)) sol
           = map (\<lambda>(p, c). (Plant_ID p, Customer_ID c)) (served_pairs sol ps cs)"
  by (simp add: assigned_list_def served_pairs_def plnt_distinct [OF assms(1)]
      cust_distinct [OF assms(2)] product_map filter_map comp_def case_prod_unfold)

lemma concat_map_singleton_on:
  "(\<And>x. x \<in> set xs \<Longrightarrow> g x = [f x]) \<Longrightarrow> concat (map g xs) = map f xs"
  by (induction xs) simp_all

lemma lanes_table_served:
  assumes dp: "distinct (map Plant_ID ps)" and dc: "distinct (map Customer_ID cs)"
    and sub: "set A \<subseteq> set ps \<times> set cs"
  shows "[\<lparr>Lane = str_int i @ ''-'' @ str_int j, Origin = Plant_Name p,
         Destination = Customer_Name c, lane_Demand = Demand d, lane_Plant_ID = i,
         Origin_Lat = p_Latitude p, Origin_Lon = p_Longitude p, lane_Customer_ID = j,
         Dest_Lat = c_Latitude c, Dest_Lon = c_Longitude c\<rparr>.
          (i, j) \<leftarrow> map (\<lambda>(p, c). (Plant_ID p, Customer_ID c)) A,
          d \<leftarrow> cs, Customer_ID d = j,
          c \<leftarrow> cs, Customer_ID c = j,
          p \<leftarrow> ps, Plant_ID p = i]
       = map (\<lambda>(p, c). lane_row p c) A"
proof -
  let ?inner = "\<lambda>i j. [\<lparr>Lane = str_int i @ ''-'' @ str_int j, Origin = Plant_Name p,
         Destination = Customer_Name c, lane_Demand = Demand d, lane_Plant_ID = i,
         Origin_Lat = p_Latitude p, Origin_Lon = p_Longitude p, lane_Customer_ID = j,
         Dest_Lat = c_Latitude c, Dest_Lon = c_Longitude c\<rparr>.
          d \<leftarrow> cs, Customer_ID d = j,
          c \<leftarrow> cs, Customer_ID c = j,
          p \<leftarrow> ps, Plant_ID p = i]"
  have one: "?inner (Plant_ID p) (Customer_ID c) = [lane_row p c]"
    if "p \<in> set ps" "c \<in> set cs" for p c
    using filter_unique [OF dp that(1)] filter_unique [OF dc that(2)]
    by (simp add: concat_map_if lane_row_def)
  have "concat (map (\<lambda>x. ?inner (Plant_ID (fst x)) (Customer_ID (snd x))) A)
          = map (\<lambda>x. lane_row (fst x) (snd x)) A"
  proof (rule concat_map_singleton_on)
    fix x assume "x \<in> set A"
    then have "fst x \<in> set ps" "snd x \<in> set cs"
      using sub by auto
    then show "?inner (Plant_ID (fst x)) (Customer_ID (snd x)) = [lane_row (fst x) (snd x)]"
      by (rule one)
  qed
  then show ?thesis
    by (simp add: comp_def case_prod_unfold cong: if_cong)
qed

lemma dist_rows_of_pair:
  assumes dp: "distinct (map Plant_ID ps)" and dc: "distinct (map Customer_ID cs)"
    and p: "p \<in> set ps" and c: "c \<in> set cs"
  shows "filter (\<lambda>r. Plant_ID (row_plant r) = Plant_ID p \<and> Customer_ID (row_customer r) = Customer_ID c)
           (map (with_cost prm) (map (\<lambda>(p, c). cross_row p c) (List.product ps cs)))
         = [with_cost prm (cross_row p c)]"
proof -
  have "filter (\<lambda>(p', c'). Plant_ID p' = Plant_ID p \<and> Customer_ID c' = Customer_ID c)
          (List.product ps cs) = [(p, c)]"
    unfolding filter_product
    using filter_unique [OF dp p] filter_unique [OF dc c] by simp
  then show ?thesis
    by (simp add: filter_map comp_def case_prod_unfold with_cost_def cross_row_def)
qed

lemma adf_of_rows:
  assumes dc: "distinct (map Customer_ID cs)"
    and sub: "set A \<subseteq> set ps \<times> set cs"
    and rows: "\<And>p c. p \<in> set ps \<Longrightarrow> c \<in> set cs \<Longrightarrow>
      filter (\<lambda>r. Plant_ID (row_plant r) = Plant_ID p \<and> Customer_ID (row_customer r) = Customer_ID c) d
        = [with_cost prm (cross_row p c)]"
  shows "adf (map (\<lambda>(p, c). (Plant_ID p, Customer_ID c)) A) cs d
         = map (\<lambda>(p, c). adf_entry p c) A"
proof -
  let ?inner = "\<lambda>i j.
     [\<lparr>adf_Plant_ID = i, adf_Customer_ID = j, adf_Demand = Demand c, adf_Distance = Distance r,
       Within400 = (Distance r \<le> 400), Within800 = (Distance r \<le> 800),
       Within1200 = (Distance r \<le> 1200)\<rparr>.
        c \<leftarrow> cs, Customer_ID c = j,
        r \<leftarrow> d, Plant_ID (row_plant r) = i \<and> Customer_ID (row_customer r) = j]"
  have one: "?inner (Plant_ID p) (Customer_ID c) = [adf_entry p c]"
    if "p \<in> set ps" "c \<in> set cs" for p c
    using filter_unique [OF dc that(2)] rows [OF that]
    by (simp add: concat_map_if adf_entry_def with_cost_def)
  have "concat (map (\<lambda>x. ?inner (Plant_ID (fst x)) (Customer_ID (snd x))) A)
          = map (\<lambda>x. adf_entry (fst x) (snd x)) A"
  proof (rule concat_map_singleton_on)
    fix x assume "x \<in> set A"
    then have "fst x \<in> set ps" "snd x \<in> set cs"
      using sub by auto
    then show "?inner (Plant_ID (fst x)) (Customer_ID (snd x)) = [adf_entry (fst x) (snd x)]"
      by (rule one)
  qed
  then show ?thesis
    unfolding adf_def by (simp add: comp_def case_prod_unfold cong: if_cong)
qed

lemma served_pairs_subset: "set (served_pairs sol ps cs) \<subseteq> set ps \<times> set cs"
  by (auto simp: served_pairs_def)

lemma adf_served:
  assumes dp: "distinct (map Plant_ID ps)" and dc: "distinct (map Customer_ID cs)"
  shows "adf (assigned_list (List.product (plnt ps) (cust cs)) sol) cs
           (map (with_cost prm) (map (\<lambda>(p, c). cross_row p c) (List.product ps cs)))
         = map (\<lambda>(p, c). adf_entry p c) (served_pairs sol ps cs)"
  unfolding assigned_served [OF dp dc]
  by (rule adf_of_rows [OF dc served_pairs_subset]) (rule dist_rows_of_pair [OF dp dc])

lemma served_pairs_distinct:
  "distinct (map Plant_ID ps) \<Longrightarrow> distinct (map Customer_ID cs) \<Longrightarrow> distinct (served_pairs sol ps cs)"
  by (simp add: served_pairs_def distinct_product distinct_map)

lemma lane_rows_distinct:
  assumes dp: "distinct (map Plant_ID ps)" and dc: "distinct (map Customer_ID cs)"
  shows "distinct (map (\<lambda>(p, c). lane_row p c) (served_pairs sol ps cs))"
proof -
  have ip: "inj_on Plant_ID (set ps)" and ic: "inj_on Customer_ID (set cs)"
    using dp dc by (simp_all add: distinct_map)
  have "inj_on (\<lambda>(p, c). lane_row p c) (set (served_pairs sol ps cs))"
  proof (rule inj_onI)
    fix x y
    assume x: "x \<in> set (served_pairs sol ps cs)" and y: "y \<in> set (served_pairs sol ps cs)"
      and e: "(case x of (p, c) \<Rightarrow> lane_row p c) = (case y of (p, c) \<Rightarrow> lane_row p c)"
    have mem: "fst x \<in> set ps" "snd x \<in> set cs" "fst y \<in> set ps" "snd y \<in> set cs"
      using x y served_pairs_subset [of sol ps cs] by auto
    have "lane_Plant_ID (lane_row (fst x) (snd x)) = lane_Plant_ID (lane_row (fst y) (snd y))"
      and "lane_Customer_ID (lane_row (fst x) (snd x)) = lane_Customer_ID (lane_row (fst y) (snd y))"
      using e by (simp_all add: case_prod_unfold)
    then have "Plant_ID (fst x) = Plant_ID (fst y)" "Customer_ID (snd x) = Customer_ID (snd y)"
      by (simp_all add: lane_row_def)
    then have "fst x = fst y" "snd x = snd y"
      using mem ip ic by (auto dest: inj_onD)
    then show "x = y" by (rule prod_eqI)
  qed
  then show ?thesis
    using served_pairs_distinct [OF dp dc] by (simp add: distinct_map)
qed

lemma lanes_table_is_served:
  assumes dp: "distinct (map Plant_ID ps)" and dc: "distinct (map Customer_ID cs)"
  shows "lanes_table (assigned_list (List.product (plnt ps) (cust cs)) sol) cs cs ps
           = map (\<lambda>(p, c). lane_row p c) (served_pairs sol ps cs)"
  unfolding lanes_table_def assigned_served [OF dp dc]
    lanes_table_served [OF dp dc served_pairs_subset]
  by (rule drop_duplicates_distinct [OF lane_rows_distinct [OF dp dc]])

lemma opt_plants_returns:
  "\<exists>cities. opt_plants ps (plnt ps) sol = Inr cities"
  unfolding opt_plants_def
proof (rule map_result_succeeds)
  fix k assume "k \<in> set (filter (\<lambda>k. 0.5 < sol (X k)) (plnt ps))"
  then obtain p where "p \<in> set ps" "Plant_ID p = k"
    by (auto simp: plnt_set)
  then have "filter (\<lambda>p. Plant_ID p = k) ps \<noteq> []"
    by (auto simp: filter_empty_conv)
  then show "\<exists>y. (case filter (\<lambda>p. Plant_ID p = k) ps of [] \<Rightarrow> Inl IndexError
                | p # _ \<Rightarrow> Inr (City p)) = Inr y"
    by (cases "filter (\<lambda>p. Plant_ID p = k) ps") simp_all
qed

lemma status_codes:
  "GRB_OPTIMAL \<notin> {GRB_INF_OR_UNBD, GRB_INFEASIBLE, GRB_UNBOUNDED}"
  by (simp add: GRB_OPTIMAL_def GRB_INF_OR_UNBD_def GRB_INFEASIBLE_def GRB_UNBOUNDED_def)

lemma run_optimal:
  assumes s: "set_up_model prm ps cs = Inr (d, twd, mdl)"
    and o: "status (optimize mdl) = GRB_OPTIMAL"
  shows "\<exists>cities. opt_plants ps (plnt ps) (solution (optimize mdl)) = Inr cities \<and>
     run_network_optimization prm optimize ps cs =
       ([OptimalObjective (getValue (m_objective mdl) (solution (optimize mdl))),
         Separator, SelectedPlants cities,
         WeightedAverageDistance
           (np_true_divide (getValue twd (solution (optimize mdl)))
              (total_dmd (adf (assigned_list (List.product (plnt ps) (cust cs))
                                 (solution (optimize mdl))) cs d))),
         TotalDemand
           (total_dmd (adf (assigned_list (List.product (plnt ps) (cust cs))
                              (solution (optimize mdl))) cs d)),
         PctWithin400
           (pct_dmd_within Within400
              (adf (assigned_list (List.product (plnt ps) (cust cs))
                      (solution (optimize mdl))) cs d)),
         PctWithin800
           (pct_dmd_within Within800
              (adf (assigned_list (List.product (plnt ps) (cust cs))
                      (solution (optimize mdl))) cs d)),
         PctWithin1200
           (pct_dmd_within Within1200
              (adf (assigned_list (List.product (plnt ps) (cust cs))
                      (solution (optimize mdl))) cs d)),
         Separator],
        Inr (lanes_table (assigned_list (List.product (plnt ps) (cust cs))
                            (solution (optimize mdl))) cs cs ps))"
proof -
  obtain cities where c: "opt_plants ps (plnt ps) (solution (optimize mdl)) = Inr cities"
    using opt_plants_returns by blast
  show ?thesis
    using c status_codes
    by (simp add: run_network_optimization_def s o generate_outputs_def Let_def)
qed

subsection \<open>Sums over the served pairs\<close>

lemma indicator_binary:
  fixes t :: real
  shows "t = 0 \<or> t = 1 \<Longrightarrow> (if 0.5 < t then g else 0) = t * g"
  by auto

lemma sum_list_cong_on:
  fixes f g :: "'a \<Rightarrow> real"
  shows "(\<And>x. x \<in> set xs \<Longrightarrow> f x = g x) \<Longrightarrow> sum_list (map f xs) = sum_list (map g xs)"
  by (induction xs) simp_all

lemma sum_over_served:
  fixes g :: "customer \<Rightarrow> real"
  assumes dp: "distinct (map Plant_ID ps)" and dc: "distinct (map Customer_ID cs)"
    and f: "feasible (optimization_model prm ps cs obj) v"
  shows "(\<Sum>(p, c)\<leftarrow>served_pairs v ps cs. g c) = (\<Sum>c\<leftarrow>cs. g c)"
proof -
  let ?y = "\<lambda>p c. v (Y (Plant_ID p) (Customer_ID c))"
  have bin: "?y p c = 0 \<or> ?y p c = 1" if "p \<in> set ps" "c \<in> set cs" for p c
    using feasible_binary(2) [OF f, of "Plant_ID p" "Customer_ID c"] that
    by (simp add: plnt_set cust_set)
  have cov: "(\<Sum>p\<leftarrow>ps. ?y p c) = 1" if "c \<in> set cs" for c
  proof -
    have "(\<Sum>i\<leftarrow>plnt ps. v (Y i (Customer_ID c))) = 1"
      using feasible_coverage [OF f, of "Customer_ID c"] that by (simp add: cust_set)
    then show ?thesis
      by (simp add: plnt_distinct [OF dp] comp_def)
  qed
  have "(\<Sum>(p, c)\<leftarrow>served_pairs v ps cs. g c)
          = (\<Sum>x\<leftarrow>List.product ps cs. if 0.5 < ?y (fst x) (snd x) then g (snd x) else 0)"
    by (simp add: served_pairs_def sum_list_map_filter' case_prod_unfold)
  also have "\<dots> = (\<Sum>p\<leftarrow>ps. \<Sum>c\<leftarrow>cs. if 0.5 < ?y p c then g c else 0)"
    by (simp add: sum_list_product cong: if_cong)
  also have "\<dots> = (\<Sum>p\<leftarrow>ps. \<Sum>c\<leftarrow>cs. ?y p c * g c)"
  proof -
    have "(\<Sum>c\<leftarrow>cs. if 0.5 < ?y p c then g c else 0) = (\<Sum>c\<leftarrow>cs. ?y p c * g c)"
      if "p \<in> set ps" for p
      by (rule sum_list_cong_on) (rule indicator_binary, rule bin [OF that])
    then show ?thesis
      by (rule sum_list_cong_on)
  qed
  also have "\<dots> = (\<Sum>c\<leftarrow>cs. \<Sum>p\<leftarrow>ps. ?y p c * g c)"
    by (rule sum_list_swap)
  also have "\<dots> = (\<Sum>c\<leftarrow>cs. (\<Sum>p\<leftarrow>ps. ?y p c) * g c)"
    by (simp add: sum_list_mult_const)
  also have "\<dots> = (\<Sum>c\<leftarrow>cs. g c)"
  proof -
    have "(\<Sum>p\<leftarrow>ps. ?y p c) * g c = g c" if "c \<in> set cs" for c
      using cov [OF that] by simp
    then show ?thesis
      by (rule sum_list_cong_on)
  qed
  finally show ?thesis .
qed

lemma length_filter_indicator:
  "real (length (filter P xs)) = (\<Sum>x\<leftarrow>xs. if P x then 1 else 0)"
  by (induction xs) simp_all

lemma one_served_pair_per_customer:
  assumes dp: "distinct (map Plant_ID ps)" and dc: "distinct (map Customer_ID cs)"
    and f: "feasible (optimization_model prm ps cs obj) v"
    and c: "c \<in> set cs"
  shows "length (filter (\<lambda>(p, c'). Customer_ID c' = Customer_ID c) (served_pairs v ps cs)) = 1"
proof -
  have "real (length (filter (\<lambda>(p, c'). Customer_ID c' = Customer_ID c) (served_pairs v ps cs)))
          = (\<Sum>(p, c')\<leftarrow>served_pairs v ps cs. if Customer_ID c' = Customer_ID c then 1 else 0)"
    by (simp add: length_filter_indicator case_prod_unfold)
  also have "\<dots> = (\<Sum>c'\<leftarrow>cs. if Customer_ID c' = Customer_ID c then 1 else 0)"
    by (rule sum_over_served [OF dp dc f])
  also have "\<dots> = real (length (filter (\<lambda>c'. Customer_ID c' = Customer_ID c) cs))"
    by (simp add: length_filter_indicator)
  also have "\<dots> = 1"
    using filter_unique [OF dc c] by simp
  finally show ?thesis by simp
qed

subsection \<open>The run after an optimal solve\<close>

lemma run_optimal_served:
  assumes dp: "distinct (map Plant_ID ps)" and dc: "distinct (map Customer_ID cs)"
    and s: "set_up_model prm ps cs = Inr (d, twd, mdl)"
    and o: "status (optimize mdl) = GRB_OPTIMAL"
  shows "\<exists>cities.
     run_network_optimization prm optimize ps cs =
       ([OptimalObjective (getValue (m_objective mdl) (solution (optimize mdl))),
         Separator, SelectedPlants cities,
         WeightedAverageDistance
           (np_true_divide (getValue (m_objective mdl) (solution (optimize mdl)))
              (total_dmd (map (\<lambda>(p, c). adf_entry p c)
                            (served_pairs (solution (optimize mdl)) ps cs)))),
         TotalDemand
           (total_dmd (map (\<lambda>(p, c). adf_entry p c)
                         (served_pairs (solution (optimize mdl)) ps cs))),
         PctWithin400
           (pct_dmd_within Within400
              (map (\<lambda>(p, c). adf_entry p c) (served_pairs (solution (optimize mdl)) ps cs))),
         PctWithin800
           (pct_dmd_within Within800
              (map (\<lambda>(p, c). adf_entry p c) (served_pairs (solution (optimize mdl)) ps cs))),
         PctWithin1200
           (pct_dmd_within Within1200
              (map (\<lambda>(p, c). adf_entry p c) (served_pairs (solution (optimize mdl)) ps cs))),
         Separator],
        Inr (map (\<lambda>(p, c). lane_row p c) (served_pairs (solution (optimize mdl)) ps cs)))"
  using run_optimal [where optimize = optimize and mdl = mdl, OF s o]
  unfolding lanes_table_is_served [OF dp dc] set_up_model_parts(1) [OF s]
    adf_served [OF dp dc] set_up_model_parts(4) [OF s]
  by blast

lemma feasible_set_up:
  assumes "set_up_model prm ps cs = Inr (d, twd, mdl)" and "feasible mdl v"
  shows "feasible (optimization_model prm ps cs twd) v"
  using assms(2) set_up_model_parts(3) [OF assms(1)] by simp



text \<open>
  Claim C1. Let the identifiers of each table be distinct and let the solver answer
  \<open>OPTIMAL\<close> with an assignment that is feasible for the model of the input. The model
  holds, for every customer, the constraint that its \<open>y\<close> variables over all plants sum
  to 1; the run returns a table of lanes, which has exactly the rows of the pairs whose
  \<open>y\<close> value is above one half; and every customer is in exactly one row of it.
\<close>

theorem every_customer_in_one_lane:
  assumes "distinct (map Plant_ID plant_df)" and "distinct (map Customer_ID cust_df)"
    and "set_up_model prm plant_df cust_df = Inr (dist_df, twd, mdl)"
    and "status (optimize mdl) = GRB_OPTIMAL"
    and "feasible mdl (solution (optimize mdl))"
  shows "(\<forall>c\<in>set cust_df. cust_coverage (plnt plant_df) (Customer_ID c) \<in> set (m_constrs mdl))
     \<and> (\<exists>out lanes.
           run_network_optimization prm optimize plant_df cust_df = (out, Inr lanes)
           \<and> lanes = map (\<lambda>(p, c). lane_row p c)
                        (served_pairs (solution (optimize mdl)) plant_df cust_df)
           \<and> (\<forall>c\<in>set cust_df.
                 length (filter (\<lambda>l. lane_Customer_ID l = Customer_ID c) lanes) = 1))"
proof -
  let ?sol = "solution (optimize mdl)"
  let ?lanes = "map (\<lambda>(p, c). lane_row p c) (served_pairs ?sol plant_df cust_df)"
  have m: "mdl = optimization_model prm plant_df cust_df twd"
    by (rule set_up_model_parts(3) [OF assms(3)])
  have cov: "\<forall>c\<in>set cust_df. cust_coverage (plnt plant_df) (Customer_ID c) \<in> set (m_constrs mdl)"
    by (simp add: m optimization_model_def cust_set)
  obtain out where r: "run_network_optimization prm optimize plant_df cust_df = (out, Inr ?lanes)"
    using run_optimal_served [where optimize = optimize and mdl = mdl,
        OF assms(1) assms(2) assms(3) assms(4)] by blast
  have one: "length (filter (\<lambda>l. lane_Customer_ID l = Customer_ID c) ?lanes) = 1"
    if "c \<in> set cust_df" for c
  proof -
    have "length (filter (\<lambda>l. lane_Customer_ID l = Customer_ID c) ?lanes)
            = length (filter (\<lambda>(p, c'). Customer_ID c' = Customer_ID c)
                        (served_pairs ?sol plant_df cust_df))"
      by (simp add: filter_map comp_def case_prod_unfold lane_row_def)
    also have "\<dots> = 1"
      by (rule one_served_pair_per_customer
          [OF assms(1) assms(2) feasible_set_up [OF assms(3) assms(5)] that])
    finally show ?thesis .
  qed
  show ?thesis
    using cov r one by blast
qed

lemma sample_set_up:
  "set_up_model main_params [plant_A, plant_B] [customer_C] =
     Inr ([with_cost main_params (cross_row plant_A customer_C),
           with_cost main_params (cross_row plant_B customer_C)],
          LinExpr [(0, Y 1 10), (3958.756 * pi * 10, Y 2 10)] 0,
          optimization_model main_params [plant_A, plant_B] [customer_C]
            (LinExpr [(0, Y 1 10), (3958.756 * pi * 10, Y 2 10)] 0))"
proof -
  obtain d twd mdl where
    s: "set_up_model main_params [plant_A, plant_B] [customer_C] = Inr (d, twd, mdl)"
    using set_up_model_returns by blast
  have dA: "Distance (cross_row plant_A customer_C) = 0"
    by (rule distance_same_place) (simp_all add: plant_A_def customer_C_def)
  have dB: "Distance (cross_row plant_B customer_C) = 3958.756 * pi"
    by (rule distance_antipodes) (simp_all add: plant_B_def customer_C_def)
  have ids: "Plant_ID plant_A = 1" "Plant_ID plant_B = 2" "Customer_ID customer_C = 10"
    "Demand customer_C = 10"
    by (simp_all add: plant_A_def plant_B_def customer_C_def)
  have keys: "row_plant (cross_row p q) = p" "row_customer (cross_row p q) = q" for p q
    by (simp_all add: cross_row_def)
  have d: "d = [with_cost main_params (cross_row plant_A customer_C),
                with_cost main_params (cross_row plant_B customer_C)]"
    using set_up_model_parts(1) [OF s] by simp
  have ij: "ij_set [plant_A, plant_B] [customer_C] = [(1, 10), (2, 10)]"
    by (simp add: ij_set_def plnt_def cust_def ids)
  have t: "twd = LinExpr [(0, Y 1 10), (3958.756 * pi * 10, Y 2 10)] 0"
    using set_up_model_parts(2) [OF s]
    by (simp add: d ij total_weighted_dist_def dist_loc_def dmd_loc_def with_cost_def keys ids dA dB)
  show ?thesis
    using s d t set_up_model_parts(3) [OF s] by simp
qed

lemma sample_served:
  "served_pairs serve_from_A [plant_A, plant_B] [customer_C] = [(plant_A, customer_C)]"
  by (simp add: served_pairs_def serve_from_A_def plant_A_def plant_B_def customer_C_def)

lemma sample_distinct:
  "distinct (map Plant_ID [plant_A, plant_B])" "distinct (map Customer_ID [customer_C])"
  by (simp_all add: plant_A_def plant_B_def)

lemma answering_simps:
  "status (answering v m) = GRB_OPTIMAL" "solution (answering v m) = v"
  by (simp_all add: answering_def)

text \<open>
  Claim C1 on two plants and one customer, with a solver that answers the assignment
  serving the customer from plant 1: the table of lanes is that one lane.
\<close>

theorem every_customer_in_one_lane_witness:
  "distinct (map Plant_ID [plant_A, plant_B]) \<and> distinct (map Customer_ID [customer_C])
   \<and> (\<exists>out. run_network_optimization main_params (answering serve_from_A)
               [plant_A, plant_B] [customer_C]
             = (out, Inr [lane_row plant_A customer_C]))
   \<and> length (filter (\<lambda>l. lane_Customer_ID l = Customer_ID customer_C)
               [lane_row plant_A customer_C]) = 1"
proof -
  let ?T = "LinExpr [(0, Y 1 10), (3958.756 * pi * 10, Y 2 10)] 0"
  let ?M = "optimization_model main_params [plant_A, plant_B] [customer_C] ?T"
  have o: "status (answering serve_from_A ?M) = GRB_OPTIMAL"
    by (rule answering_simps)
  have f: "feasible ?M (solution (answering serve_from_A ?M))"
    unfolding answering_simps by (rule sample_feasible)
  show ?thesis
    using sample_distinct
      every_customer_in_one_lane [where optimize = "answering serve_from_A" and mdl = ?M,
        OF sample_distinct sample_set_up o f]
    by (simp add: answering_simps sample_served)
qed



subsection \<open>The coverage fractions\<close>









subsection \<open>The plants of the lane table\<close>

lemma open_count:
  assumes f: "feasible (optimization_model prm ps cs obj) v"
  shows "int (length (filter (\<lambda>i. 0.5 < v (X i)) (plnt ps))) \<le> max_plants prm"
proof -
  have "real (length (filter (\<lambda>i. 0.5 < v (X i)) (plnt ps))) = (\<Sum>i\<leftarrow>plnt ps. v (X i))"
    by (rule binary_count [symmetric]) (rule feasible_binary(1) [OF f])
  also have "\<dots> \<le> of_int (max_plants prm)"
    by (rule feasible_cap [OF f])
  finally have "real_of_int (int (length (filter (\<lambda>i. 0.5 < v (X i)) (plnt ps))))
                  \<le> real_of_int (max_plants prm)"
    by simp
  then show ?thesis
    by (simp only: of_int_le_iff)
qed

lemma served_plant_open:
  assumes f: "feasible (optimization_model prm ps cs obj) v"
    and x: "x \<in> set (served_pairs v ps cs)"
  shows "0.5 < v (X (Plant_ID (fst x)))"
proof -
  have m: "fst x \<in> set ps" "snd x \<in> set cs"
    and y: "0.5 < v (Y (Plant_ID (fst x)) (Customer_ID (snd x)))"
    using x by (auto simp: served_pairs_def)
  have "v (Y (Plant_ID (fst x)) (Customer_ID (snd x))) \<le> v (X (Plant_ID (fst x)))"
    using feasible_linking [OF f, of "Plant_ID (fst x)" "Customer_ID (snd x)"] m
    by (simp add: plnt_set cust_set)
  with y show ?thesis by simp
qed

text \<open>
  Claim C2, as amended. Under the conditions of C1 the plants of the table of lanes are at
  most \<open>max_plants\<close>, each of them is open, and none of them is flagged not
  \<open>Can Use\<close>. Every plant flagged \<open>Must Use\<close> is open (its \<open>x\<close> value is above
  one half); that it is in the table of lanes is not stated.
\<close>

theorem lane_plants_respect_flags:
  assumes "distinct (map Plant_ID plant_df)" and "distinct (map Customer_ID cust_df)"
    and "set_up_model prm plant_df cust_df = Inr (dist_df, twd, mdl)"
    and "status (optimize mdl) = GRB_OPTIMAL"
    and "feasible mdl (solution (optimize mdl))"
  shows "\<exists>out lanes.
     run_network_optimization prm optimize plant_df cust_df = (out, Inr lanes)
     \<and> int (card (lane_Plant_ID ` set lanes)) \<le> max_plants prm
     \<and> (\<forall>l\<in>set lanes. 0.5 < solution (optimize mdl) (X (lane_Plant_ID l)))
     \<and> (\<forall>p\<in>set plant_df. Must_Use p \<longrightarrow> 0.5 < solution (optimize mdl) (X (Plant_ID p)))
     \<and> (\<forall>p\<in>set plant_df. \<not> Can_Use p \<longrightarrow> Plant_ID p \<notin> lane_Plant_ID ` set lanes)"
proof -
  let ?v = "solution (optimize mdl)"
  let ?lanes = "map (\<lambda>(p, c). lane_row p c) (served_pairs ?v plant_df cust_df)"
  let ?open = "filter (\<lambda>i. 0.5 < ?v (X i)) (plnt plant_df)"
  have f: "feasible (optimization_model prm plant_df cust_df twd) ?v"
    by (rule feasible_set_up [OF assms(3) assms(5)])
  obtain out where r: "run_network_optimization prm optimize plant_df cust_df = (out, Inr ?lanes)"
    using run_optimal_served [where optimize = optimize and mdl = mdl,
        OF assms(1) assms(2) assms(3) assms(4)] by blast
  have opn: "0.5 < ?v (X (lane_Plant_ID l))" if l: "l \<in> set ?lanes" for l
  proof -
    obtain x where x: "x \<in> set (served_pairs ?v plant_df cust_df)"
      and e: "l = lane_row (fst x) (snd x)"
      using l by (auto simp: case_prod_unfold)
    show ?thesis
      using served_plant_open [OF f x] by (simp add: e lane_row_def)
  qed
  have ids: "lane_Plant_ID l \<in> set (plnt plant_df)" if l: "l \<in> set ?lanes" for l
  proof -
    obtain x where x: "x \<in> set (served_pairs ?v plant_df cust_df)"
      and e: "l = lane_row (fst x) (snd x)"
      using l by (auto simp: case_prod_unfold)
    have "fst x \<in> set plant_df"
      using x served_pairs_subset [of ?v plant_df cust_df] by (cases x) auto
    then show ?thesis
      by (simp add: e lane_row_def plnt_set)
  qed
  have sub: "lane_Plant_ID ` set ?lanes \<subseteq> set ?open"
    using opn ids by auto
  have "card (lane_Plant_ID ` set ?lanes) \<le> card (set ?open)"
    by (rule card_mono [OF finite_set sub])
  also have "\<dots> \<le> length ?open"
    by (rule card_length)
  finally have "int (card (lane_Plant_ID ` set ?lanes)) \<le> int (length ?open)"
    by simp
  also have "\<dots> \<le> max_plants prm"
    by (rule open_count [OF f])
  finally have cap: "int (card (lane_Plant_ID ` set ?lanes)) \<le> max_plants prm" .
  have must: "\<forall>p\<in>set plant_df. Must_Use p \<longrightarrow> 0.5 < ?v (X (Plant_ID p))"
    using feasible_must_use [OF f] by simp
  have cant: "\<forall>p\<in>set plant_df. \<not> Can_Use p \<longrightarrow> Plant_ID p \<notin> lane_Plant_ID ` set ?lanes"
  proof (intro ballI impI notI)
    fix p assume p: "p \<in> set plant_df" and c: "\<not> Can_Use p"
      and i: "Plant_ID p \<in> lane_Plant_ID ` set ?lanes"
    then obtain l where "l \<in> set ?lanes" "Plant_ID p = lane_Plant_ID l"
      by blast
    then have "0.5 < ?v (X (Plant_ID p))"
      using opn by simp
    then show False
      using feasible_cant_use [OF f p c] by simp
  qed
  show ?thesis
    using r cap opn must cant by blast
qed

text \<open>
  The amended claim C2 on two plants and one customer: one plant in the table of lanes
  against a cap of 3, and the plant flagged \<open>Must Use\<close> is open.
\<close>

theorem lane_plants_respect_flags_witness:
  "distinct (map Plant_ID [plant_A, plant_B]) \<and> distinct (map Customer_ID [customer_C])
   \<and> (\<exists>out. run_network_optimization main_params (answering serve_from_A)
               [plant_A, plant_B] [customer_C]
             = (out, Inr [lane_row plant_A customer_C]))
   \<and> int (card (lane_Plant_ID ` set [lane_row plant_A customer_C])) \<le> max_plants main_params
   \<and> Must_Use plant_B \<and> 0.5 < serve_from_A (X (Plant_ID plant_B))"
proof -
  let ?T = "LinExpr [(0, Y 1 10), (3958.756 * pi * 10, Y 2 10)] 0"
  let ?M = "optimization_model main_params [plant_A, plant_B] [customer_C] ?T"
  have o: "status (answering serve_from_A ?M) = GRB_OPTIMAL"
    by (rule answering_simps)
  have f: "feasible ?M (solution (answering serve_from_A ?M))"
    unfolding answering_simps by (rule sample_feasible)
  have l: "lanes = [lane_row plant_A customer_C]"
    if "run_network_optimization main_params (answering serve_from_A)
          [plant_A, plant_B] [customer_C] = (out, Inr lanes)" for out lanes
    using that run_optimal_served [where optimize = "answering serve_from_A" and mdl = ?M,
        OF sample_distinct sample_set_up o]
    by (auto simp: answering_simps sample_served)
  have m: "Must_Use plant_B" "plant_B \<in> set [plant_A, plant_B]"
    by (simp_all add: plant_B_def)
  obtain out lanes where
    r: "run_network_optimization main_params (answering serve_from_A)
          [plant_A, plant_B] [customer_C] = (out, Inr lanes)"
    and c: "int (card (lane_Plant_ID ` set lanes)) \<le> max_plants main_params"
    and u: "\<forall>p\<in>set [plant_A, plant_B]. Must_Use p \<longrightarrow>
              0.5 < solution (answering serve_from_A ?M) (X (Plant_ID p))"
    using lane_plants_respect_flags [where optimize = "answering serve_from_A" and mdl = ?M,
        OF sample_distinct sample_set_up o f]
    by blast
  have e: "lanes = [lane_row plant_A customer_C]"
    by (rule l [OF r])
  have b: "0.5 < serve_from_A (X (Plant_ID plant_B))"
    using u m unfolding answering_simps by blast
  show ?thesis
    using sample_distinct r c m(1) b unfolding e by blast
qed

text \<open>
  Claim C2 as it is written fails. Plant 2 is flagged \<open>Must Use\<close> and lies half way
  round the equator from the only customer, which plant 1 serves at distance 0. That
  assignment, with both plants open, is optimal, and plant 2 is not in the table of lanes.
\<close>

theorem must_use_plant_without_lane_counterexample:
  "Must_Use plant_B
   \<and> set_up_model main_params [plant_A, plant_B] [customer_C] =
       Inr ([with_cost main_params (cross_row plant_A customer_C),
             with_cost main_params (cross_row plant_B customer_C)],
            LinExpr [(0, Y 1 10), (3958.756 * pi * 10, Y 2 10)] 0,
            optimization_model main_params [plant_A, plant_B] [customer_C]
              (LinExpr [(0, Y 1 10), (3958.756 * pi * 10, Y 2 10)] 0))
   \<and> optimal (optimization_model main_params [plant_A, plant_B] [customer_C]
                (LinExpr [(0, Y 1 10), (3958.756 * pi * 10, Y 2 10)] 0)) serve_from_A
   \<and> snd (run_network_optimization main_params (answering serve_from_A)
             [plant_A, plant_B] [customer_C])
       = Inr [lane_row plant_A customer_C]
   \<and> Plant_ID plant_B \<notin> lane_Plant_ID ` set [lane_row plant_A customer_C]"
proof -
  let ?T = "LinExpr [(0, Y 1 10), (3958.756 * pi * 10, Y 2 10)] 0"
  let ?M = "optimization_model main_params [plant_A, plant_B] [customer_C] ?T"
  have o: "status (answering serve_from_A ?M) = GRB_OPTIMAL"
    by (rule answering_simps)
  have v0: "getValue (m_objective ?M) serve_from_A = 0"
    by (simp add: optimization_model_def serve_from_A_def)
  have low: "0 \<le> getValue (m_objective ?M) w" if w: "feasible ?M w" for w
  proof -
    have "2 \<in> set (plnt [plant_A, plant_B])" "10 \<in> set (cust [customer_C])"
      by (simp_all add: plnt_set cust_set plant_A_def plant_B_def customer_C_def)
    then have "w (Y 2 10) = 0 \<or> w (Y 2 10) = 1"
      by (rule feasible_binary(2) [OF w])
    then show ?thesis
      by (auto simp: optimization_model_def)
  qed
  have opt: "optimal ?M serve_from_A"
    unfolding optimal_def
  proof (intro conjI allI impI)
    show "feasible ?M serve_from_A"
      by (rule sample_feasible)
  next
    fix w assume "feasible ?M w"
    then show "getValue (m_objective ?M) serve_from_A \<le> getValue (m_objective ?M) w"
      unfolding v0 by (rule low)
  qed
  have r: "snd (run_network_optimization main_params (answering serve_from_A)
             [plant_A, plant_B] [customer_C]) = Inr [lane_row plant_A customer_C]"
    using run_optimal_served [where optimize = "answering serve_from_A" and mdl = ?M,
        OF sample_distinct sample_set_up o]
    by (auto simp: answering_simps sample_served)
  have n: "Plant_ID plant_B \<notin> lane_Plant_ID ` set [lane_row plant_A customer_C]"
    by (simp add: lane_row_def plant_A_def plant_B_def)
  have m: "Must_Use plant_B"
    by (simp add: plant_B_def)
  show ?thesis
    using m sample_set_up opt r n by simp
qed

end
